theory Spec2Isabelle
  imports Complex_Main "HOL-Library.Multiset"
begin

section \<open>Python values\<close>

text \<open>
  A Python \<open>str\<close> is a sequence of Unicode code points, so a string is a list of
  natural numbers and \<open>len\<close> is \<open>length\<close>. ASCII literals are written through
  \<open>ascii\<close>; the umlauts of the source are written by their code points.
\<close>

type_synonym ustr = "nat list"

definition ascii :: "string \<Rightarrow> ustr" where
  "ascii s = map of_char s"

datatype error = ZeroDivisionError | RuntimeError ustr

text \<open>\<open>sep.join(xs)\<close>\<close>

fun join :: "ustr \<Rightarrow> ustr list \<Rightarrow> ustr" where
  "join sep [] = []"
| "join sep [x] = x"
| "join sep (x # y # ys) = x @ sep @ join sep (y # ys)"

text \<open>
  \<open>xs[i:j]\<close>: a negative bound counts from the end, and both bounds are clamped to
  the list, so a slice never raises.
\<close>

definition norm_index :: "int \<Rightarrow> int \<Rightarrow> int" where
  "norm_index n i = (if i < 0 then max 0 (n + i) else min n i)"

definition slice :: "'a list \<Rightarrow> int \<Rightarrow> int \<Rightarrow> 'a list" where
  "slice xs i j =
     (let n = int (length xs); a = norm_index n i; b = norm_index n j
      in take (nat (b - a)) (drop (nat a) xs))"

section \<open>List objects and the random generator\<close>

text \<open>
  Python lists are mutable objects. The store holds every list object; an address is
  an index into it, and allocating appends. \<open>list(words)\<close> allocates a copy.
\<close>

type_synonym addr = nat
type_synonym store = "ustr list list"

definition new_list :: "store \<Rightarrow> ustr list \<Rightarrow> addr \<times> store" where
  "new_list h xs = (length h, h @ [xs])"

text \<open>
  \<open>random.shuffle(x)\<close> permutes the list object \<open>x\<close> in place and advances the
  generator. The generator state \<open>'g\<close> and the permutation it picks are parameters:
  \<open>permuting\<close> says that the picked arrangement is a permutation, and the theorems
  below hold for every such generator.
\<close>

type_synonym 'g shuffle = "'g \<Rightarrow> ustr list \<Rightarrow> ustr list \<times> 'g"

definition permuting :: "'g shuffle \<Rightarrow> bool" where
  "permuting sh \<longleftrightarrow> (\<forall>g xs. mset (fst (sh g xs)) = mset xs)"

record 'g state =
  heap :: store
  rng :: 'g
  idx :: int
  result :: "ustr list"

definition random_shuffle :: "'g shuffle \<Rightarrow> addr \<Rightarrow> 'g state \<Rightarrow> 'g state" where
  "random_shuffle sh a st =
     (let (ys, g') = sh (rng st) (heap st ! a)
      in st\<lparr>heap := (heap st)[a := ys], rng := g'\<rparr>)"

section \<open>\<open>assemble_poem\<close>\<close>

text \<open>
  The placeholder literal of the source: \<open>(keine W\<close>, the letter o with diaeresis
  (U+00F6, code point 246), \<open>rter gefunden)\<close>.
\<close>

definition placeholder :: ustr where
  "placeholder = ascii ''(keine W'' @ [246] @ ascii ''rter gefunden)''"

text \<open>\<open>max(2, min(5, len(words_list) // lines or 2))\<close>\<close>

definition segment_size :: "nat \<Rightarrow> int \<Rightarrow> error + int" where
  "segment_size k lines =
     (if lines = 0 then Inl ZeroDivisionError
      else let q = int k div lines
           in Inr (max 2 (min 5 (if q = 0 then 2 else q))))"

text \<open>One pass of the body of \<open>for _ in range(lines)\<close>.\<close>

definition loop_body :: "'g shuffle \<Rightarrow> addr \<Rightarrow> int \<Rightarrow> 'g state \<Rightarrow> 'g state" where
  "loop_body sh words_list seg st =
     (let st1 = (if idx st \<ge> int (length (heap st ! words_list))
                 then (random_shuffle sh words_list st)\<lparr>idx := 0\<rparr>
                 else st);
          end_idx = idx st1 + seg;
          segment = slice (heap st1 ! words_list) (idx st1) end_idx
      in st1\<lparr>idx := end_idx, result := result st1 @ [join [32] segment]\<rparr>)"

primrec poem_loop :: "'g shuffle \<Rightarrow> addr \<Rightarrow> int \<Rightarrow> nat \<Rightarrow> 'g state \<Rightarrow> 'g state" where
  "poem_loop sh words_list seg 0 st = st"
| "poem_loop sh words_list seg (Suc n) st =
     poem_loop sh words_list seg n (loop_body sh words_list seg st)"

text \<open>
  \<open>assemble_poem(words, lines)\<close>, with \<open>words\<close> the address of the caller's list.
  It returns the lines or the exception raised, together with the store and the
  generator state it leaves behind.
\<close>

definition assemble_poem ::
  "'g shuffle \<Rightarrow> store \<Rightarrow> 'g \<Rightarrow> addr \<Rightarrow> int \<Rightarrow> (error + ustr list) \<times> store \<times> 'g" where
  "assemble_poem sh h g words lines =
     (let (words_list, h1) = new_list h (h ! words);
          st = random_shuffle sh words_list \<lparr>heap = h1, rng = g, idx = 0, result = []\<rparr>
      in if heap st ! words_list = []
         then (Inr (replicate (nat lines) placeholder), heap st, rng st)
         else (case segment_size (length (heap st ! words_list)) lines of
                 Inl e \<Rightarrow> (Inl e, heap st, rng st)
               | Inr seg \<Rightarrow>
                   (let st' = poem_loop sh words_list seg (nat lines) st
                    in (Inr (result st'), heap st', rng st'))))"

text \<open>
  Two generators for concrete runs: one whose shuffle happens to leave the order as it
  is, and one that rotates the list by the number of shuffles made so far. Both count
  the calls of \<open>random.shuffle\<close> in the generator state.
\<close>

definition keep_order :: "nat shuffle" where
  "keep_order g xs = (xs, Suc g)"

definition rotating :: "nat shuffle" where
  "rotating g xs = (rotate g xs, Suc g)"

text \<open>
  The per-line word count in the words of the specification: the floor of the quotient
  \<open>len(words) / N\<close>, clamped to the range from 2 to 5, with 2 when the floor is 0.
\<close>

definition spec_segment_size :: "nat \<Rightarrow> int \<Rightarrow> int" where
  "spec_segment_size k N =
     (let q = \<lfloor>real k / real_of_int N\<rfloor>
      in if q = 0 then 2 else if q < 2 then 2 else if 5 < q then 5 else q)"

text \<open>
  The words of a line are what \<open>line.split(" ")\<close> gives: the pieces between single
  spaces.
\<close>

fun split_at :: "nat \<Rightarrow> ustr \<Rightarrow> ustr \<Rightarrow> ustr list" where
  "split_at sep cur [] = [cur]"
| "split_at sep cur (c # cs) =
     (if c = sep then cur # split_at sep [] cs else split_at sep (cur @ [c]) cs)"

definition line_words :: "ustr \<Rightarrow> ustr list" where
  "line_words l = split_at 32 [] l"

text \<open>A pool of three words, for concrete runs.\<close>

definition three_words :: "ustr list" where
  "three_words = [ascii ''a'', ascii ''b'', ascii ''c'']"

section \<open>\<open>detect_language\<close>\<close>

text \<open>
  The set of seven characters of the source, by code point: the small letters a, o
  and u with diaeresis (U+00E4, U+00F6, U+00FC), the capital ones (U+00C4, U+00D6,
  U+00DC) and the sharp s (U+00DF).
\<close>

definition german_chars :: "nat set" where
  "german_chars = set [228, 246, 252, 196, 214, 220, 223]"

definition detect_language :: "ustr \<Rightarrow> ustr" where
  "detect_language text =
     (if list_ex (\<lambda>ch. ch \<in> german_chars) text then ascii ''de'' else ascii ''en'')"

text \<open>The four characters the specification lists: the lower-case umlauts and the sharp s.\<close>

definition spec_german_chars :: "nat set" where
  "spec_german_chars = set [228, 246, 252, 223]"

section \<open>Character classes\<close>

text \<open>
  \<open>str.isalpha\<close>, \<open>str.isdigit\<close>, \<open>str.isupper\<close>, \<open>str.lower\<close> and the \<open>\w\<close> of \<open>re\<close>
  read the interpreter's Unicode tables. On ASCII they are fixed and written out
  here; beyond ASCII they are the parameter \<open>ucd\<close>, and the theorems hold for every
  such table. Lower-casing a string that leaves ASCII is a function of the whole
  string, since one code point can become several and a final sigma depends on its
  neighbours.
\<close>

record ucd =
  uc_alpha :: "nat \<Rightarrow> bool"
  uc_digit :: "nat \<Rightarrow> bool"
  uc_alnum :: "nat \<Rightarrow> bool"
  uc_upper :: "nat \<Rightarrow> bool"
  uc_lower :: "ustr \<Rightarrow> ustr"

definition ascii_upper_letter :: "nat \<Rightarrow> bool" where
  "ascii_upper_letter c \<longleftrightarrow> 65 \<le> c \<and> c \<le> 90"

definition ascii_lower_letter :: "nat \<Rightarrow> bool" where
  "ascii_lower_letter c \<longleftrightarrow> 97 \<le> c \<and> c \<le> 122"

definition ascii_digit :: "nat \<Rightarrow> bool" where
  "ascii_digit c \<longleftrightarrow> 48 \<le> c \<and> c \<le> 57"

definition ch_isalpha :: "ucd \<Rightarrow> nat \<Rightarrow> bool" where
  "ch_isalpha U c =
     (if c < 128 then ascii_upper_letter c \<or> ascii_lower_letter c else uc_alpha U c)"

definition ch_isdigit :: "ucd \<Rightarrow> nat \<Rightarrow> bool" where
  "ch_isdigit U c = (if c < 128 then ascii_digit c else uc_digit U c)"

definition ch_isalnum :: "ucd \<Rightarrow> nat \<Rightarrow> bool" where
  "ch_isalnum U c =
     (if c < 128 then ascii_upper_letter c \<or> ascii_lower_letter c \<or> ascii_digit c
      else uc_alnum U c)"

definition ch_isupper :: "ucd \<Rightarrow> nat \<Rightarrow> bool" where
  "ch_isupper U c = (if c < 128 then ascii_upper_letter c else uc_upper U c)"

text \<open>\<open>\w\<close>: an alphanumeric character or the underscore (code point 95).\<close>

definition is_word_char :: "ucd \<Rightarrow> nat \<Rightarrow> bool" where
  "is_word_char U c \<longleftrightarrow> ch_isalnum U c \<or> c = 95"

definition str_isdigit :: "ucd \<Rightarrow> ustr \<Rightarrow> bool" where
  "str_isdigit U s \<longleftrightarrow> s \<noteq> [] \<and> list_all (ch_isdigit U) s"

definition str_isalpha :: "ucd \<Rightarrow> ustr \<Rightarrow> bool" where
  "str_isalpha U s \<longleftrightarrow> s \<noteq> [] \<and> list_all (ch_isalpha U) s"

definition ascii_lower :: "nat \<Rightarrow> nat" where
  "ascii_lower c = (if ascii_upper_letter c then c + 32 else c)"

definition str_lower :: "ucd \<Rightarrow> ustr \<Rightarrow> ustr" where
  "str_lower U s = (if list_all (\<lambda>c. c < 128) s then map ascii_lower s else uc_lower U s)"

text \<open>\<open>s.endswith(suffix)\<close> and \<open>s.endswith(tuple)\<close>\<close>

definition endswith :: "ustr \<Rightarrow> ustr \<Rightarrow> bool" where
  "endswith s suf \<longleftrightarrow> length suf \<le> length s \<and> drop (length s - length suf) s = suf"

definition endswith_any :: "ustr \<Rightarrow> ustr list \<Rightarrow> bool" where
  "endswith_any s sufs = list_ex (endswith s) sufs"

text \<open>
  \<open>str.isspace\<close> of one code point: the white space characters of Unicode. \<open>s.strip()\<close>
  removes them from both ends.
\<close>

definition ch_isspace :: "nat \<Rightarrow> bool" where
  "ch_isspace c \<longleftrightarrow>
     (9 \<le> c \<and> c \<le> 13) \<or> (28 \<le> c \<and> c \<le> 32) \<or> c = 133 \<or> c = 160 \<or> c = 5760 \<or>
     (8192 \<le> c \<and> c \<le> 8202) \<or> c = 8232 \<or> c = 8233 \<or> c = 8239 \<or> c = 8287 \<or> c = 12288"

definition strip :: "ustr \<Rightarrow> ustr" where
  "strip s = rev (dropWhile ch_isspace (rev (dropWhile ch_isspace s)))"

text \<open>Tables that know no character beyond ASCII, for concrete runs on ASCII text.\<close>

definition no_unicode :: ucd where
  "no_unicode = \<lparr>uc_alpha = (\<lambda>c. False), uc_digit = (\<lambda>c. False), uc_alnum = (\<lambda>c. False),
                  uc_upper = (\<lambda>c. False), uc_lower = (\<lambda>s. s)\<rparr>"

section \<open>\<open>extract_nouns_verbs_heuristic\<close>\<close>

text \<open>
  \<open>re.findall(r"\b\w+\b", text)\<close>: a match starts at a word boundary, \<open>\w+\<close> is greedy
  and the match must end at a word boundary, so the matches are the maximal runs of
  word characters, from left to right. \<open>runs\<close> collects the maximal runs of the
  characters that satisfy \<open>w\<close>; \<open>cur\<close> is the run being read.
\<close>

fun runs :: "(nat \<Rightarrow> bool) \<Rightarrow> ustr \<Rightarrow> ustr \<Rightarrow> ustr list" where
  "runs w cur [] = (if cur = [] then [] else [cur])"
| "runs w cur (c # cs) =
     (if w c then runs w (cur @ [c]) cs
      else (if cur = [] then [] else [cur]) @ runs w [] cs)"

definition findall_words :: "ucd \<Rightarrow> ustr \<Rightarrow> ustr list" where
  "findall_words U text = runs (is_word_char U) [] text"

definition german_verb_endings :: "ustr list" where
  "german_verb_endings = [ascii ''en'', ascii ''st'', ascii ''t'', ascii ''end'']"

text \<open>The \<open>for token in tokens\<close> loop; \<open>words\<close> is the list built so far.\<close>

fun heuristic_loop :: "ucd \<Rightarrow> ustr list \<Rightarrow> ustr list \<Rightarrow> ustr list" where
  "heuristic_loop U words [] = words"
| "heuristic_loop U words (token # tokens) =
     (if length token \<le> 1 \<or> str_isdigit U token then heuristic_loop U words tokens
      else if ch_isupper U (token ! 0) then heuristic_loop U (words @ [token]) tokens
      else (let lower = str_lower U token
            in if endswith_any lower german_verb_endings
               then heuristic_loop U (words @ [token]) tokens
               else if str_isalpha U token \<and> length token > 3
               then heuristic_loop U (words @ [token]) tokens
               else heuristic_loop U words tokens))"

definition extract_nouns_verbs_heuristic :: "ucd \<Rightarrow> ustr \<Rightarrow> ustr list" where
  "extract_nouns_verbs_heuristic U text = heuristic_loop U [] (findall_words U text)"

text \<open>
  The classifier in the words of the specification: the tokens are the alphanumeric
  runs; a token of length at most 1 or purely numeric is discarded; of the others, a
  token is kept when its first character is upper case, else when its lower-case form
  ends in one of the verb endings, else when it is purely alphabetic and longer than
  3 characters.
\<close>

definition spec_tokens :: "ucd \<Rightarrow> ustr \<Rightarrow> ustr list" where
  "spec_tokens U text = runs (ch_isalnum U) [] text"

definition spec_keeps :: "ucd \<Rightarrow> ustr \<Rightarrow> bool" where
  "spec_keeps U token \<longleftrightarrow>
     \<not> (length token \<le> 1 \<or> str_isdigit U token) \<and>
     (if ch_isupper U (hd token) then True
      else if endswith_any (str_lower U token) german_verb_endings then True
      else str_isalpha U token \<and> 3 < length token)"

definition spec_heuristic :: "ucd \<Rightarrow> ustr \<Rightarrow> ustr list" where
  "spec_heuristic U text = filter (spec_keeps U) (spec_tokens U text)"

section \<open>The outside world\<close>

text \<open>
  The image library, the OCR engine and the tagging models are not code of this
  program; they are parameters. Each call that can raise returns a sum, \<open>Inl\<close> with
  the text of the exception. The file system maps the path of each regular file to
  its bytes, and \<open>temp_name\<close> is the path that \<open>NamedTemporaryFile\<close> picks.
\<close>

type_synonym files = "ustr \<rightharpoonup> ustr"

record token =
  tok_text :: ustr
  tok_is_alpha :: bool
  tok_pos :: ustr

type_synonym nlp = "ustr \<Rightarrow> token list"

record 'img env =
  image_open :: "files \<Rightarrow> ustr \<Rightarrow> ustr + 'img"
  image_to_string :: "'img \<Rightarrow> ustr + ustr"
  spacy_installed :: bool
  spacy_load :: "ustr \<Rightarrow> nlp option"
  tables :: ucd
  temp_name :: "files \<Rightarrow> ustr"

section \<open>\<open>extract_text\<close>\<close>

text \<open>The \<open>RuntimeError\<close> of the \<open>except\<close> clause; 39 is the single quote.\<close>

definition process_error :: "ustr \<Rightarrow> ustr \<Rightarrow> error" where
  "process_error image_path exc =
     RuntimeError (ascii ''Unable to open or process image '' @ [39] @ image_path @ [39]
                   @ ascii '': '' @ exc)"

definition extract_text :: "'img env \<Rightarrow> files \<Rightarrow> ustr \<Rightarrow> error + ustr" where
  "extract_text E fs image_path =
     (case image_open E fs image_path of
        Inl exc \<Rightarrow> Inl (process_error image_path exc)
      | Inr img \<Rightarrow>
          (case image_to_string E img of
             Inl exc \<Rightarrow> Inl (process_error image_path exc)
           | Inr text \<Rightarrow> Inr text))"

section \<open>The tagging pipeline\<close>

definition model_names :: "ustr \<rightharpoonup> ustr" where
  "model_names = [ascii ''de'' \<mapsto> ascii ''de_core_news_sm'',
                  ascii ''en'' \<mapsto> ascii ''en_core_web_sm'']"

text \<open>\<open>spacy_load\<close> is \<open>None\<close> where \<open>spacy.load\<close> raises.\<close>

definition load_spacy_pipeline :: "'img env \<Rightarrow> ustr \<Rightarrow> nlp option" where
  "load_spacy_pipeline E lang =
     (if \<not> spacy_installed E then None
      else (case model_names lang of
              None \<Rightarrow> None
            | Some model_name \<Rightarrow> spacy_load E model_name))"

definition noun_verb_tags :: "ustr list" where
  "noun_verb_tags = [ascii ''NOUN'', ascii ''PROPN'', ascii ''VERB'', ascii ''AUX'']"

fun spacy_loop :: "ustr list \<Rightarrow> token list \<Rightarrow> ustr list" where
  "spacy_loop words [] = words"
| "spacy_loop words (token # doc) =
     (if \<not> tok_is_alpha token then spacy_loop words doc
      else if tok_pos token \<in> set noun_verb_tags
      then spacy_loop (words @ [tok_text token]) doc
      else spacy_loop words doc)"

definition extract_nouns_verbs_spacy :: "ustr \<Rightarrow> nlp \<Rightarrow> ustr list" where
  "extract_nouns_verbs_spacy text nlp = spacy_loop [] (nlp text)"

section \<open>\<open>main\<close>\<close>

text \<open>
  The parsed command line, and how a run ends: by returning, by \<open>sys.exit\<close>, or by
  an exception nobody catches. A run also leaves what it printed on the two streams
  (one entry for each \<open>print\<close>), the store and the generator state.
\<close>

record args =
  args_image :: ustr
  args_lang :: "ustr option"

datatype ending = Returned | Exit int | Uncaught error

definition classify :: "'img env \<Rightarrow> ustr \<Rightarrow> ustr \<Rightarrow> ustr list" where
  "classify E lang text =
     (case load_spacy_pipeline E lang of
        Some nlp \<Rightarrow> extract_nouns_verbs_spacy text nlp
      | None \<Rightarrow> extract_nouns_verbs_heuristic (tables E) text)"

definition main ::
  "'img env \<Rightarrow> 'g shuffle \<Rightarrow> files \<Rightarrow> store \<Rightarrow> 'g \<Rightarrow> args
     \<Rightarrow> ending \<times> ustr list \<times> ustr list \<times> store \<times> 'g" where
  "main E sh fs h g a =
     (if fs (args_image a) = None
      then (Exit 1, [],
            [ascii ''Error: file '' @ [39] @ args_image a @ [39] @ ascii '' does not exist.''], h, g)
      else (case extract_text E fs (args_image a) of
              Inl e \<Rightarrow> (Uncaught e, [], [], h, g)
            | Inr text \<Rightarrow>
                if strip text = []
                then (Exit 0, [ascii ''No text detected in the image.''], [], h, g)
                else
                  (let lang = (case args_lang a of
                                 None \<Rightarrow> detect_language text
                               | Some l \<Rightarrow> if l = [] then detect_language text else l);
                       words = classify E lang text
                   in if words = []
                      then (Exit 0,
                            [ascii ''Keine Substantive oder Verben gefunden (no nouns or verbs found).''],
                            [], h, g)
                      else (let (words_ref, h1) = new_list h words;
                                (r, h2, g2) = assemble_poem sh h1 g words_ref 6
                            in case r of
                                 Inl e \<Rightarrow> (Uncaught e, [], [], h2, g2)
                               | Inr poem_lines \<Rightarrow>
                                   (Returned, [[], join [10] poem_lines], [], h2, g2)))))"

section \<open>The request handler \<open>generate\<close>\<close>

text \<open>
  The request carries the uploaded file, if any. The handler answers with a JSON
  error and its status, or with the page that shows the poem, or it lets an
  exception escape. It also leaves a file system behind.
\<close>

record upload =
  filename :: ustr
  content :: ustr

datatype response = Json_error nat ustr | Poem_page ustr | Unhandled error

definition generate ::
  "'img env \<Rightarrow> 'g shuffle \<Rightarrow> files \<Rightarrow> store \<Rightarrow> 'g \<Rightarrow> upload option
     \<Rightarrow> response \<times> files \<times> store \<times> 'g" where
  "generate E sh fs h g req =
     (case req of
        None \<Rightarrow> (Json_error 400 (ascii ''Keine Datei hochgeladen.''), fs, h, g)
      | Some file \<Rightarrow>
          if filename file = []
          then (Json_error 400 (ascii ''Keine Datei hochgeladen.''), fs, h, g)
          else
            (let tmp = temp_name E fs;
                 fs1 = fs(tmp \<mapsto> []);
                 fs2 = fs1(tmp \<mapsto> content file)
             in case extract_text E fs2 tmp of
                  Inl e \<Rightarrow> (Unhandled e, fs2, h, g)
                | Inr text \<Rightarrow>
                    (let fs3 = fs2(tmp := None)
                     in if strip text = []
                        then (Json_error 400 (ascii ''Kein Text im Bild gefunden.''), fs3, h, g)
                        else
                          (let lang = detect_language text;
                               words = classify E lang text
                           in if words = []
                              then (Poem_page
                                      (join [10]
                                         (replicate 6
                                            (ascii ''Keine Substantive oder Verben gefunden''))),
                                    fs3, h, g)
                              else (let (words_ref, h1) = new_list h words;
                                        (r, h2, g2) = assemble_poem sh h1 g words_ref 6
                                    in case r of
                                         Inl e \<Rightarrow> (Unhandled e, fs3, h2, g2)
                                       | Inr poem_lines \<Rightarrow>
                                           (Poem_page (join [10] poem_lines), fs3, h2, g2))))))"

text \<open>
  An outside world for concrete runs. A file that starts with the four bytes
  \<open>137 80 78 71\<close> decodes to a picture, any other file is refused; the picture is
  the rest of the bytes, and the OCR reads it off as text. No tagging model is
  installed.
\<close>

definition demo_env :: "ustr env" where
  "demo_env =
     \<lparr>image_open = (\<lambda>fs p. case fs p of
                        None \<Rightarrow> Inl (ascii ''No such file or directory'')
                      | Some bytes \<Rightarrow>
                          if take 4 bytes = [137, 80, 78, 71] then Inr (drop 4 bytes)
                          else Inl (ascii ''cannot identify image file'')),
      image_to_string = (\<lambda>img. Inr img),
      spacy_installed = False,
      spacy_load = (\<lambda>m. None),
      tables = no_unicode,
      temp_name = (\<lambda>fs. ascii ''/tmp/tmpupload.png'')\<rparr>"

definition blank_image :: ustr where
  "blank_image = [137, 80, 78, 71, 32, 10]"

definition not_an_image :: ustr where
  "not_an_image = ascii ''plain notes''"

section \<open>Slices, shuffles and the loop: basic facts\<close>

lemma set_slice: "set (slice xs i j) \<subseteq> set xs"
  unfolding slice_def Let_def
  by (meson set_take_subset set_drop_subset subset_trans)

lemma length_slice_le: "0 \<le> i \<Longrightarrow> 0 \<le> seg \<Longrightarrow> int (length (slice xs i (i + seg))) \<le> seg"
  unfolding slice_def Let_def norm_index_def by auto

lemma slice_nonempty: "0 \<le> i \<Longrightarrow> i < int (length xs) \<Longrightarrow> i < j \<Longrightarrow> slice xs i j \<noteq> []"
  unfolding slice_def Let_def norm_index_def by auto

lemma permuting_mset: "permuting sh \<Longrightarrow> mset (fst (sh g xs)) = mset xs"
  by (simp add: permuting_def)

lemma permuting_length: "permuting sh \<Longrightarrow> length (fst (sh g xs)) = length xs"
  using permuting_mset [of sh g xs] by (metis size_mset)

lemma permuting_set: "permuting sh \<Longrightarrow> set (fst (sh g xs)) = set xs"
  using permuting_mset [of sh g xs] by (metis set_mset_mset)

lemma heap_random_shuffle:
  "heap (random_shuffle sh a st) = (heap st)[a := fst (sh (rng st) (heap st ! a))]"
  by (simp add: random_shuffle_def split_def Let_def)

lemma rng_random_shuffle:
  "rng (random_shuffle sh a st) = snd (sh (rng st) (heap st ! a))"
  by (simp add: random_shuffle_def split_def Let_def)

lemma idx_random_shuffle: "idx (random_shuffle sh a st) = idx st"
  by (simp add: random_shuffle_def split_def Let_def)

lemma result_random_shuffle: "result (random_shuffle sh a st) = result st"
  by (simp add: random_shuffle_def split_def Let_def)

lemma length_heap_loop_body: "length (heap (loop_body sh a seg st)) = length (heap st)"
  by (simp add: loop_body_def Let_def heap_random_shuffle)

lemma heap_loop_body_other: "b \<noteq> a \<Longrightarrow> heap (loop_body sh a seg st) ! b = heap st ! b"
  by (simp add: loop_body_def Let_def heap_random_shuffle)

lemma length_heap_poem_loop: "length (heap (poem_loop sh a seg n st)) = length (heap st)"
  by (induction n arbitrary: st) (simp_all add: length_heap_loop_body)

lemma heap_poem_loop_other: "b \<noteq> a \<Longrightarrow> heap (poem_loop sh a seg n st) ! b = heap st ! b"
  by (induction n arbitrary: st) (simp_all add: heap_loop_body_other)

lemma length_result_loop_body: "length (result (loop_body sh a seg st)) = Suc (length (result st))"
  by (simp add: loop_body_def Let_def result_random_shuffle)

lemma length_result_poem_loop:
  "length (result (poem_loop sh a seg n st)) = length (result st) + n"
  by (induction n arbitrary: st) (simp_all add: length_result_loop_body)


lemma permuting_keep_order: "permuting keep_order"
  by (simp add: permuting_def keep_order_def)

lemma mset_rotate_eq: "mset (rotate n xs) = mset xs"
proof -
  have "mset (rotate n xs) = mset (take (n mod length xs) xs) + mset (drop (n mod length xs) xs)"
    by (simp add: rotate_drop_take)
  also have "\<dots> = mset (take (n mod length xs) xs @ drop (n mod length xs) xs)"
    by (simp only: mset_append)
  also have "\<dots> = mset xs"
    by (simp only: append_take_drop_id)
  finally show ?thesis .
qed

lemma permuting_rotating: "permuting rotating"
  by (simp add: permuting_def rotating_def mset_rotate_eq)

lemma store_frame:
  assumes len: "length h' = Suc (length h)"
    and same: "\<And>b. b < length h \<Longrightarrow> h' ! b = (h @ [xs]) ! b"
  shows "take (length h) h' = h"
proof (rule nth_equalityI)
  show "length (take (length h) h') = length h" using len by simp
next
  fix i assume "i < length (take (length h) h')"
  then have i: "i < length h" by simp
  then have "h' ! i = (h @ [xs]) ! i" using same [of i] by simp
  then show "take (length h) h' ! i = h ! i" using i by (simp add: nth_append)
qed

lemma split_at_no_sep: "sep \<notin> set w \<Longrightarrow> split_at sep cur (w @ rest) = split_at sep (cur @ w) rest"
  by (induction w arbitrary: cur) auto

lemma split_at_join:
  "\<forall>w\<in>set (x # xs). sep \<notin> set w \<Longrightarrow> split_at sep cur (join [sep] (x # xs)) = (cur @ x) # xs"
proof (induction xs arbitrary: x cur)
  case Nil
  then show ?case using split_at_no_sep [of sep x cur "[]"] by simp
next
  case (Cons y ys)
  have x: "sep \<notin> set x" using Cons.prems by simp
  have "split_at sep cur (join [sep] (x # y # ys)) = split_at sep (cur @ x) (sep # join [sep] (y # ys))"
    using split_at_no_sep [OF x] by simp
  also have "\<dots> = (cur @ x) # split_at sep [] (join [sep] (y # ys))" by simp
  also have "\<dots> = (cur @ x) # y # ys" using Cons.IH [of y "[]"] Cons.prems by simp
  finally show ?case .
qed

lemma line_words_join:
  "s \<noteq> [] \<Longrightarrow> \<forall>w\<in>set s. 32 \<notin> set w \<Longrightarrow> line_words (join [32] s) = s"
  by (cases s) (simp_all add: line_words_def split_at_join del: join.simps)

lemma segment_size_spec:
  "N \<noteq> 0 \<Longrightarrow> segment_size k N = Inr (spec_segment_size k N)"
proof -
  assume "N \<noteq> 0"
  have "\<lfloor>real k / real_of_int N\<rfloor> = int k div N"
    using floor_divide_of_int_eq [of "int k" N, where ?'a = real] by simp
  then show ?thesis using \<open>N \<noteq> 0\<close>
    by (auto simp: segment_size_def spec_segment_size_def Let_def)
qed

lemma segment_size_range: "segment_size k N = Inr seg \<Longrightarrow> 2 \<le> seg \<and> seg \<le> 5"
  by (auto simp: segment_size_def Let_def split: if_splits)

lemma loop_body_step:
  assumes p: "permuting sh" and ne: "heap st ! a \<noteq> []" and a: "a < length (heap st)"
    and i: "0 \<le> idx st" and seg: "1 \<le> seg"
  shows "\<exists>s. result (loop_body sh a seg st) = result st @ [join [32] s] \<and> s \<noteq> [] \<and>
             set s \<subseteq> set (heap st ! a) \<and> int (length s) \<le> seg"
    and "mset (heap (loop_body sh a seg st) ! a) = mset (heap st ! a)"
    and "0 \<le> idx (loop_body sh a seg st)"
proof -
  let ?st1 = "if idx st \<ge> int (length (heap st ! a))
              then (random_shuffle sh a st)\<lparr>idx := 0\<rparr> else st"
  let ?s = "slice (heap ?st1 ! a) (idx ?st1) (idx ?st1 + seg)"
  have m1: "mset (heap ?st1 ! a) = mset (heap st ! a)"
    using a by (simp add: heap_random_shuffle permuting_mset [OF p])
  then have set1: "set (heap ?st1 ! a) = set (heap st ! a)" by (metis set_mset_mset)
  from m1 have len1: "length (heap ?st1 ! a) = length (heap st ! a)" by (metis size_mset)
  have i1: "0 \<le> idx ?st1" using i by simp
  have lt1: "idx ?st1 < int (length (heap ?st1 ! a))"
  proof (cases "idx st \<ge> int (length (heap st ! a))")
    case True
    then show ?thesis using ne len1 by simp
  next
    case False
    then show ?thesis by simp
  qed
  have r: "result (loop_body sh a seg st) = result st @ [join [32] ?s]"
    by (simp add: loop_body_def Let_def result_random_shuffle)
  have "?s \<noteq> []" using i1 lt1 seg by (intro slice_nonempty) auto
  moreover have "set ?s \<subseteq> set (heap st ! a)" using set_slice [of "heap ?st1 ! a"] set1 by blast
  moreover have "int (length ?s) \<le> seg" using i1 seg by (intro length_slice_le) auto
  ultimately show "\<exists>s. result (loop_body sh a seg st) = result st @ [join [32] s] \<and> s \<noteq> [] \<and>
             set s \<subseteq> set (heap st ! a) \<and> int (length s) \<le> seg"
    using r by blast
  have "heap (loop_body sh a seg st) = heap ?st1"
    by (simp add: loop_body_def Let_def)
  then show "mset (heap (loop_body sh a seg st) ! a) = mset (heap st ! a)" using m1 by simp
  have "idx (loop_body sh a seg st) = idx ?st1 + seg"
    by (simp add: loop_body_def Let_def)
  then show "0 \<le> idx (loop_body sh a seg st)" using i1 seg by simp
qed

lemma poem_loop_lines:
  assumes p: "permuting sh" and seg: "1 \<le> seg"
  shows "heap st ! a \<noteq> [] \<Longrightarrow> a < length (heap st) \<Longrightarrow> 0 \<le> idx st \<Longrightarrow>
     \<exists>segs. result (poem_loop sh a seg n st) = result st @ map (join [32]) segs \<and>
            length segs = n \<and>
            (\<forall>s\<in>set segs. s \<noteq> [] \<and> set s \<subseteq> set (heap st ! a) \<and> int (length s) \<le> seg)"
proof (induction n arbitrary: st)
  case 0
  then show ?case by simp
next
  case (Suc n)
  let ?st' = "loop_body sh a seg st"
  from loop_body_step(1) [OF p Suc.prems(1) Suc.prems(2) Suc.prems(3) seg]
  obtain s where s: "result ?st' = result st @ [join [32] s]" "s \<noteq> []"
    "set s \<subseteq> set (heap st ! a)" "int (length s) \<le> seg" by blast
  have m: "mset (heap ?st' ! a) = mset (heap st ! a)"
    by (rule loop_body_step(2) [OF p Suc.prems(1) Suc.prems(2) Suc.prems(3) seg])
  then have set': "set (heap ?st' ! a) = set (heap st ! a)" by (metis set_mset_mset)
  have ne': "heap ?st' ! a \<noteq> []" using m Suc.prems(1) by (metis mset_zero_iff)
  have a': "a < length (heap ?st')" using Suc.prems(2) by (simp add: length_heap_loop_body)
  have i': "0 \<le> idx ?st'"
    by (rule loop_body_step(3) [OF p Suc.prems(1) Suc.prems(2) Suc.prems(3) seg])
  from Suc.IH [OF ne' a' i'] obtain segs where segs:
    "result (poem_loop sh a seg n ?st') = result ?st' @ map (join [32]) segs"
    "length segs = n"
    "\<forall>s\<in>set segs. s \<noteq> [] \<and> set s \<subseteq> set (heap ?st' ! a) \<and> int (length s) \<le> seg"
    by blast
  have "result (poem_loop sh a seg (Suc n) st) = result st @ map (join [32]) (s # segs)"
    using segs(1) s(1) by simp
  moreover have "length (s # segs) = Suc n" using segs(2) by simp
  moreover have "\<forall>t\<in>set (s # segs). t \<noteq> [] \<and> set t \<subseteq> set (heap st ! a) \<and> int (length t) \<le> seg"
    using segs(3) s set' by auto
  ultimately show ?case by blast
qed

lemma assemble_poem_segments:
  assumes p: "permuting sh" and ne: "h ! words \<noteq> []" and N: "N \<noteq> 0"
  shows "\<exists>segs. assemble_poem sh h g words N =
             (let st = poem_loop sh (length h) (spec_segment_size (length (h ! words)) N) (nat N)
                         (random_shuffle sh (length h)
                            \<lparr>heap = h @ [h ! words], rng = g, idx = 0, result = []\<rparr>)
              in (Inr (result st), heap st, rng st)) \<and>
           fst (assemble_poem sh h g words N) = Inr (map (join [32]) segs) \<and>
           length segs = nat N \<and>
           (\<forall>s\<in>set segs. s \<noteq> [] \<and> set s \<subseteq> set (h ! words) \<and>
               int (length s) \<le> spec_segment_size (length (h ! words)) N)"
proof -
  let ?k = "length (h ! words)"
  let ?st0 = "random_shuffle sh (length h) \<lparr>heap = h @ [h ! words], rng = g, idx = 0, result = []\<rparr>"
  let ?seg = "spec_segment_size ?k N"
  have ss: "segment_size ?k N = Inr ?seg" by (rule segment_size_spec [OF N])
  have rg: "2 \<le> ?seg \<and> ?seg \<le> 5" by (rule segment_size_range [OF ss])
  have h0: "heap ?st0 ! length h = fst (sh g (h ! words))" by (simp add: heap_random_shuffle)
  have len0: "length (heap ?st0 ! length h) = ?k" using h0 permuting_length [OF p] by simp
  have set0: "set (heap ?st0 ! length h) = set (h ! words)" using h0 permuting_set [OF p] by simp
  have ne0: "heap ?st0 ! length h \<noteq> []" using len0 ne by auto
  have a0: "length h < length (heap ?st0)" by (simp add: heap_random_shuffle)
  have i0: "0 \<le> idx ?st0" by (simp add: idx_random_shuffle)
  have r0: "result ?st0 = []" by (simp add: result_random_shuffle)
  have ap: "assemble_poem sh h g words N =
             (let st = poem_loop sh (length h) ?seg (nat N) ?st0
              in (Inr (result st), heap st, rng st))"
    using ne0 ss len0 by (simp add: assemble_poem_def new_list_def Let_def)
  have "1 \<le> ?seg" using rg by simp
  from poem_loop_lines [OF p this ne0 a0 i0, of "nat N"] r0
  obtain segs where segs: "result (poem_loop sh (length h) ?seg (nat N) ?st0) = map (join [32]) segs"
    "length segs = nat N"
    "\<forall>s\<in>set segs. s \<noteq> [] \<and> set s \<subseteq> set (heap ?st0 ! length h) \<and> int (length s) \<le> ?seg"
    by auto
  have f: "fst (assemble_poem sh h g words N) = Inr (map (join [32]) segs)"
    using ap segs(1) by (simp add: Let_def)
  show ?thesis using ap f segs(2) segs(3) set0 by auto
qed

lemma assemble_poem_zero_lines:
  assumes p: "permuting sh" and ne: "h ! words \<noteq> []"
  shows "fst (assemble_poem sh h g words 0) = Inl ZeroDivisionError"
proof -
  have "length (fst (sh g (h ! words))) = length (h ! words)" by (rule permuting_length [OF p])
  then have "fst (sh g (h ! words)) \<noteq> []" using ne by auto
  then show ?thesis
    by (simp add: assemble_poem_def new_list_def Let_def heap_random_shuffle segment_size_def)
qed






section \<open>The classifier loop and the tokenizer: basic facts\<close>

lemma heuristic_loop_filter:
  "heuristic_loop U words tokens = words @ filter (spec_keeps U) tokens"
proof (induction tokens arbitrary: words)
  case Nil
  then show ?case by simp
next
  case (Cons token tokens)
  show ?case
  proof (cases "length token \<le> 1 \<or> str_isdigit U token")
    case True
    then have nk: "\<not> spec_keeps U token" by (simp add: spec_keeps_def)
    show ?thesis using True nk by (simp add: Cons.IH)
  next
    case False
    then have "token \<noteq> []" by auto
    then have hd: "hd token = token ! 0" by (simp add: hd_conv_nth)
    have k: "spec_keeps U token \<longleftrightarrow>
               ch_isupper U (token ! 0) \<or>
               endswith_any (str_lower U token) german_verb_endings \<or>
               (str_isalpha U token \<and> 3 < length token)"
      using False hd by (auto simp: spec_keeps_def)
    show ?thesis
    proof (cases "spec_keeps U token")
      case True
      then show ?thesis using False k by (auto simp: Cons.IH Let_def)
    next
      case nk: False
      then show ?thesis using False k by (auto simp: Cons.IH Let_def)
    qed
  qed
qed

lemma runs_agree: "\<forall>c\<in>set cs. w c = w' c \<Longrightarrow> runs w cur cs = runs w' cur cs"
  by (induction cs arbitrary: cur) auto

lemma runs_wellformed:
  "list_all w cur \<Longrightarrow> \<forall>t\<in>set (runs w cur cs). t \<noteq> [] \<and> list_all w t"
proof (induction cs arbitrary: cur)
  case Nil
  then show ?case by simp
next
  case (Cons c cs)
  show ?case
  proof (cases "w c")
    case True
    then have "list_all w (cur @ [c])" using Cons.prems by simp
    from Cons.IH [OF this] show ?thesis using True by simp
  next
    case False
    have "list_all w []" by simp
    from Cons.IH [OF this] show ?thesis using False Cons.prems by auto
  qed
qed

lemmas class_defs = extract_nouns_verbs_heuristic_def findall_words_def ascii_def is_word_char_def
  ch_isalnum_def ascii_upper_letter_def ascii_lower_letter_def ascii_digit_def str_isdigit_def
  ch_isdigit_def ch_isupper_def str_lower_def ascii_lower_def endswith_any_def endswith_def
  german_verb_endings_def str_isalpha_def ch_isalpha_def

section \<open>The OCR wrapper and its callers: basic facts\<close>

lemma strip_empty_iff: "strip s = [] \<longleftrightarrow> list_all ch_isspace s"
proof -
  let ?d = "dropWhile ch_isspace s"
  have "strip s = [] \<longleftrightarrow> (\<forall>c\<in>set ?d. ch_isspace c)"
    by (simp add: strip_def dropWhile_eq_Nil_conv)
  also have "\<dots> \<longleftrightarrow> ?d = []"
  proof
    assume all: "\<forall>c\<in>set ?d. ch_isspace c"
    show "?d = []"
    proof (rule ccontr)
      assume ne: "?d \<noteq> []"
      then have "\<not> ch_isspace (hd ?d)" by (rule hd_dropWhile)
      moreover have "hd ?d \<in> set ?d" using ne by simp
      ultimately show False using all by blast
    qed
  next
    assume e: "?d = []"
    show "\<forall>c\<in>set ?d. ch_isspace c" unfolding e by simp
  qed
  also have "\<dots> \<longleftrightarrow> list_all ch_isspace s"
    by (simp add: dropWhile_eq_Nil_conv list_all_iff)
  finally show ?thesis .
qed

lemma extract_text_cases:
  "extract_text E fs p = Inl e \<longleftrightarrow>
     (\<exists>exc. e = process_error p exc \<and>
        (image_open E fs p = Inl exc \<or>
         (\<exists>img. image_open E fs p = Inr img \<and> image_to_string E img = Inl exc)))"
  by (auto simp: extract_text_def split: sum.splits)

lemma extract_text_ok:
  "extract_text E fs p = Inr t \<longleftrightarrow>
     (\<exists>img. image_open E fs p = Inr img \<and> image_to_string E img = Inr t)"
  by (auto simp: extract_text_def split: sum.splits)

lemma main_uncaught:
  "fs (args_image a) \<noteq> None \<Longrightarrow> extract_text E fs (args_image a) = Inl e \<Longrightarrow>
     main E sh fs h g a = (Uncaught e, [], [], h, g)"
  by (simp add: main_def)

lemma main_no_text:
  "fs (args_image a) \<noteq> None \<Longrightarrow> extract_text E fs (args_image a) = Inr t \<Longrightarrow> strip t = [] \<Longrightarrow>
     main E sh fs h g a = (Exit 0, [ascii ''No text detected in the image.''], [], h, g)"
  by (simp add: main_def)

lemma generate_failure:
  "filename file \<noteq> [] \<Longrightarrow>
   extract_text E (fs(temp_name E fs \<mapsto> content file)) (temp_name E fs) = Inl e \<Longrightarrow>
     generate E sh fs h g (Some file) = (Unhandled e, fs(temp_name E fs \<mapsto> content file), h, g)"
  by (simp add: generate_def Let_def)

lemma generate_no_text:
  "filename file \<noteq> [] \<Longrightarrow>
   extract_text E (fs(temp_name E fs \<mapsto> content file)) (temp_name E fs) = Inr t \<Longrightarrow>
   strip t = [] \<Longrightarrow>
     generate E sh fs h g (Some file) =
       (Json_error 400 (ascii ''Kein Text im Bild gefunden.''), fs(temp_name E fs := None), h, g)"
  by (simp add: generate_def Let_def)

lemma generate_files_on_return:
  "filename file \<noteq> [] \<Longrightarrow>
   extract_text E (fs(temp_name E fs \<mapsto> content file)) (temp_name E fs) = Inr t \<Longrightarrow>
     fst (snd (generate E sh fs h g (Some file))) = fs(temp_name E fs := None)"
  by (simp add: generate_def Let_def split_def split: sum.splits)

lemmas demo_defs = demo_env_def extract_text_def blank_image_def
  not_an_image_def process_error_def

section \<open>The number of lines\<close>

text \<open>
  Claim C1. For every word list, of any size including 0 and 1, and every positive line
  count \<open>N\<close>, \<open>assemble_poem\<close> returns without raising, and what it returns is a list
  of exactly \<open>N\<close> lines. This holds for every generator, permuting or not.
\<close>

theorem assemble_poem_line_count:
  "0 < N \<Longrightarrow> \<exists>ls. fst (assemble_poem sh h g words N) = Inr ls \<and> length ls = nat N"
  by (simp add: assemble_poem_def new_list_def segment_size_def Let_def
      length_result_poem_loop result_random_shuffle)

theorem assemble_poem_line_count_witness:
  "(0::int) < 6 \<and> (\<exists>ls. fst (assemble_poem keep_order [[ascii ''a'']] 0 0 6) = Inr ls \<and> length ls = nat 6)"
  using assemble_poem_line_count [of 6 keep_order "[[ascii ''a'']]" 0 0] by simp

section \<open>The caller's list\<close>

text \<open>
  Claim C10. \<open>assemble_poem\<close> shuffles the copy it allocates, never the list it is
  given: after the call, whether it returned or raised, the caller's list object holds
  the elements it held before, and so does every other list object that existed
  before the call.
\<close>

theorem assemble_poem_leaves_input:
  "words < length h \<Longrightarrow>
     fst (snd (assemble_poem sh h g words N)) ! words = h ! words \<and>
     take (length h) (fst (snd (assemble_poem sh h g words N))) = h"
proof -
  assume w: "words < length h"
  let ?st = "random_shuffle sh (length h) \<lparr>heap = h @ [h ! words], rng = g, idx = 0, result = []\<rparr>"
  let ?h' = "fst (snd (assemble_poem sh h g words N))"
  have cases: "?h' = heap ?st \<or> (\<exists>seg. ?h' = heap (poem_loop sh (length h) seg (nat N) ?st))"
    by (auto simp: assemble_poem_def new_list_def Let_def split: sum.splits)
  have len0: "length (heap ?st) = Suc (length h)"
    by (simp add: heap_random_shuffle)
  have same0: "\<And>b. b < length h \<Longrightarrow> heap ?st ! b = (h @ [h ! words]) ! b"
    by (simp add: heap_random_shuffle nth_append)
  have len: "length ?h' = Suc (length h)"
    using cases len0 by (auto simp: length_heap_poem_loop)
  have same: "\<And>b. b < length h \<Longrightarrow> ?h' ! b = (h @ [h ! words]) ! b"
    using cases same0 by (auto simp: heap_poem_loop_other)
  have t: "take (length h) ?h' = h"
    using len same by (rule store_frame)
  have "?h' ! words = take (length h) ?h' ! words" using w by simp
  with t show ?thesis by simp
qed

theorem assemble_poem_leaves_input_witness:
  "(0::nat) < length [[ascii ''a'', ascii ''b'', ascii ''c'']] \<and>
   fst (snd (assemble_poem rotating [[ascii ''a'', ascii ''b'', ascii ''c'']] 1 0 6)) ! 0
     = [ascii ''a'', ascii ''b'', ascii ''c'']"
  using assemble_poem_leaves_input [of 0 "[[ascii ''a'', ascii ''b'', ascii ''c'']]" rotating 1 6]
  by simp

section \<open>The empty pool\<close>

text \<open>
  Claim C2 names the placeholder line \<open>"(no words found)"\<close>. The line the source
  returns is its German literal: on the empty list and one line, the result is the
  single line \<open>placeholder\<close>, which is not the string of the claim.
\<close>

theorem assemble_poem_empty_counterexample:
  "fst (assemble_poem keep_order [[]] 0 0 1) = Inr [placeholder] \<and>
   placeholder \<noteq> ascii ''(no words found)''"
  by (simp add: assemble_poem_def new_list_def random_shuffle_def keep_order_def
      placeholder_def ascii_def)

text \<open>
  Claim C2, amended. If the caller's list is empty, \<open>assemble_poem\<close> returns \<open>N\<close>
  copies (none for a negative \<open>N\<close>) of the fixed German line \<open>placeholder\<close> of the
  source and does nothing more: the store has gained the empty copy only, and the generator
  has made the one shuffle that precedes the test.
\<close>

theorem assemble_poem_empty:
  assumes "permuting sh" and "h ! words = []"
  shows "assemble_poem sh h g words N =
           (Inr (replicate (nat N) placeholder), h @ [[]], snd (sh g []))"
proof -
  have "mset (fst (sh g [])) = {#}" using permuting_mset [OF assms(1), of g "[]"] by simp
  then have e: "fst (sh g []) = []" by simp
  show ?thesis using assms(2) e
    by (simp add: assemble_poem_def new_list_def Let_def heap_random_shuffle rng_random_shuffle)
qed

theorem assemble_poem_empty_witness:
  "permuting keep_order \<and> [[]] ! 0 = ([] :: ustr list) \<and>
   assemble_poem keep_order [[]] 0 0 6 = (Inr (replicate 6 placeholder), [[], []], 1)"
  using assemble_poem_empty [OF permuting_keep_order, of "[[]]" 0 0 6] permuting_keep_order
  by (simp add: keep_order_def)

section \<open>The segment size\<close>

text \<open>
  Claim C3. For a non-empty word list of size \<open>k\<close> and a line count \<open>N\<close> (not 0, where
  the floored division itself raises), the segment size is the floor of \<open>k / N\<close>
  clamped to the range from 2 to 5, with 2 for a floor of 0, so it lies between 2 and 5.
  It is computed once: the whole poem is the loop run \<open>N\<close> times with that one value,
  whatever is reshuffled on the way, and every line holds at least one and at most
  that many words.
\<close>

theorem segment_size_fixed:
  assumes p: "permuting sh" and ne: "h ! words \<noteq> []" and N: "N \<noteq> 0"
  shows "\<exists>seg segs.
           segment_size (length (h ! words)) N = Inr seg \<and>
           seg = spec_segment_size (length (h ! words)) N \<and> 2 \<le> seg \<and> seg \<le> 5 \<and>
           assemble_poem sh h g words N =
             (let st = poem_loop sh (length h) seg (nat N)
                         (random_shuffle sh (length h)
                            \<lparr>heap = h @ [h ! words], rng = g, idx = 0, result = []\<rparr>)
              in (Inr (result st), heap st, rng st)) \<and>
           fst (assemble_poem sh h g words N) = Inr (map (join [32]) segs) \<and>
           length segs = nat N \<and>
           (\<forall>s\<in>set segs. 1 \<le> int (length s) \<and> int (length s) \<le> seg)"
proof -
  let ?seg = "spec_segment_size (length (h ! words)) N"
  have ss: "segment_size (length (h ! words)) N = Inr ?seg" by (rule segment_size_spec [OF N])
  have rg: "2 \<le> ?seg \<and> ?seg \<le> 5" by (rule segment_size_range [OF ss])
  from assemble_poem_segments [OF p ne N, of g] obtain segs where segs:
    "assemble_poem sh h g words N =
             (let st = poem_loop sh (length h) ?seg (nat N)
                         (random_shuffle sh (length h)
                            \<lparr>heap = h @ [h ! words], rng = g, idx = 0, result = []\<rparr>)
              in (Inr (result st), heap st, rng st))"
    "fst (assemble_poem sh h g words N) = Inr (map (join [32]) segs)"
    "length segs = nat N"
    "\<forall>s\<in>set segs. s \<noteq> [] \<and> set s \<subseteq> set (h ! words) \<and> int (length s) \<le> ?seg"
    by blast
  have b: "\<forall>s\<in>set segs. 1 \<le> int (length s) \<and> int (length s) \<le> ?seg"
  proof
    fix s assume "s \<in> set segs"
    with segs(4) have "s \<noteq> []" and "int (length s) \<le> ?seg" by auto
    then show "1 \<le> int (length s) \<and> int (length s) \<le> ?seg" by (cases s) auto
  qed
  show ?thesis using ss rg segs(1) segs(2) segs(3) b by blast
qed

theorem segment_size_fixed_witness:
  "permuting rotating \<and> [three_words] ! 0 \<noteq> [] \<and> (6::int) \<noteq> 0 \<and>
   (\<exists>seg segs.
           segment_size (length ([three_words] ! 0)) 6 = Inr seg \<and>
           seg = spec_segment_size (length ([three_words] ! 0)) 6 \<and> 2 \<le> seg \<and> seg \<le> 5 \<and>
           assemble_poem rotating [three_words] 1 0 6 =
             (let st = poem_loop rotating (length [three_words]) seg (nat 6)
                         (random_shuffle rotating (length [three_words])
                            \<lparr>heap = [three_words] @ [[three_words] ! 0], rng = 1, idx = 0, result = []\<rparr>)
              in (Inr (result st), heap st, rng st)) \<and>
           fst (assemble_poem rotating [three_words] 1 0 6) = Inr (map (join [32]) segs) \<and>
           length segs = nat 6 \<and>
           (\<forall>s\<in>set segs. 1 \<le> int (length s) \<and> int (length s) \<le> seg))"
proof -
  have ne: "[three_words] ! 0 \<noteq> []" by (simp add: three_words_def)
  have n: "(6::int) \<noteq> 0" by simp
  from segment_size_fixed [OF permuting_rotating ne n, of 1] permuting_rotating ne n
  show ?thesis by blast
qed

section \<open>Where the words of a line come from\<close>

text \<open>
  Claim C4 speaks of every input word list. For the empty list the lines are the
  placeholder, and the three words of the placeholder are not elements of the
  input.
\<close>

theorem words_from_input_counterexample:
  "fst (assemble_poem keep_order [[]] 0 0 1) = Inr [placeholder] \<and>
   line_words placeholder = [ascii ''(keine'', ascii ''W'' @ [246] @ ascii ''rter'', ascii ''gefunden)''] \<and>
   ascii ''(keine'' \<notin> set ([[]] ! 0)"
  by (simp add: assemble_poem_def new_list_def random_shuffle_def keep_order_def
      placeholder_def ascii_def line_words_def)

text \<open>
  Claim C4, amended. For every non-empty word list and every outcome of the shuffles,
  whenever \<open>assemble_poem\<close> returns, each line is the space-joined form of a non-empty
  run of elements of the input list; and when no input word contains a space, every
  word read off a line by splitting it at the spaces is an element of the input list.
\<close>

theorem words_from_input:
  assumes p: "permuting sh" and ne: "h ! words \<noteq> []"
    and ret: "fst (assemble_poem sh h g words N) = Inr ls"
  shows "\<exists>segs. ls = map (join [32]) segs \<and>
           (\<forall>s\<in>set segs. s \<noteq> [] \<and> set s \<subseteq> set (h ! words)) \<and>
           ((\<forall>w\<in>set (h ! words). 32 \<notin> set w) \<longrightarrow>
              (\<forall>l\<in>set ls. set (line_words l) \<subseteq> set (h ! words)))"
proof -
  have N: "N \<noteq> 0" using ret assemble_poem_zero_lines [OF p ne, of g] by auto
  from assemble_poem_segments [OF p ne N, of g] ret obtain segs where segs:
    "ls = map (join [32]) segs"
    "\<forall>s\<in>set segs. s \<noteq> [] \<and> set s \<subseteq> set (h ! words)"
    by auto
  have "\<forall>l\<in>set ls. set (line_words l) \<subseteq> set (h ! words)"
    if nosp: "\<forall>w\<in>set (h ! words). 32 \<notin> set w"
  proof
    fix l assume "l \<in> set ls"
    then obtain s where s: "s \<in> set segs" "l = join [32] s" using segs(1) by auto
    then have s1: "s \<noteq> []" and s2: "set s \<subseteq> set (h ! words)" using segs(2) by auto
    have "\<forall>w\<in>set s. 32 \<notin> set w" using s2 nosp by blast
    then have "line_words l = s" using s(2) s1 by (simp add: line_words_join)
    then show "set (line_words l) \<subseteq> set (h ! words)" using s2 by simp
  qed
  then show ?thesis using segs by blast
qed

theorem words_from_input_witness:
  "permuting rotating \<and> [three_words] ! 0 \<noteq> [] \<and>
   fst (assemble_poem rotating [three_words] 1 0 6)
     = Inr [ascii ''b c'', ascii ''a'', ascii ''a b'', ascii ''c'', ascii ''a b'', ascii ''c''] \<and>
   (\<exists>segs. [ascii ''b c'', ascii ''a'', ascii ''a b'', ascii ''c'', ascii ''a b'', ascii ''c'']
              = map (join [32]) segs \<and>
           (\<forall>s\<in>set segs. s \<noteq> [] \<and> set s \<subseteq> set ([three_words] ! 0)) \<and>
           ((\<forall>w\<in>set ([three_words] ! 0). 32 \<notin> set w) \<longrightarrow>
              (\<forall>l\<in>set [ascii ''b c'', ascii ''a'', ascii ''a b'', ascii ''c'', ascii ''a b'', ascii ''c''].
                  set (line_words l) \<subseteq> set ([three_words] ! 0))))"
proof -
  have ne: "[three_words] ! 0 \<noteq> []" by (simp add: three_words_def)
  have ret: "fst (assemble_poem rotating [three_words] 1 0 6)
     = Inr [ascii ''b c'', ascii ''a'', ascii ''a b'', ascii ''c'', ascii ''a b'', ascii ''c'']"
    by code_simp
  from words_from_input [OF permuting_rotating ne ret] permuting_rotating ne ret
  show ?thesis by blast
qed

section \<open>Three words, six lines\<close>




section \<open>Language detection\<close>

text \<open>
  Claim C7 lists four characters, the small a, o and u with diaeresis and the sharp
  s, and has every string without them yield \<open>"en"\<close>. The set of the source also
  holds the three capital letters with diaeresis: the one-character string made of
  the capital A with diaeresis (U+00C4) holds none of the four and yields \<open>"de"\<close>.
\<close>

theorem detect_language_counterexample:
  "detect_language [196] = ascii ''de'' \<and> set [196] \<inter> spec_german_chars = {} \<and>
   ascii ''de'' \<noteq> ascii ''en''"
  by (simp add: detect_language_def german_chars_def spec_german_chars_def ascii_def)

text \<open>
  Claim C7, amended. \<open>detect_language\<close> returns \<open>"de"\<close> exactly when the string holds
  one of the seven characters of \<open>german_chars\<close> (the four of the claim and the
  three capital letters with diaeresis), and \<open>"en"\<close> exactly when it holds none of
  them; being a total function, it returns one of the two on every string. The
  German word for size, with its o with diaeresis and its sharp s, gives \<open>"de"\<close>, and
  \<open>"Size"\<close> gives \<open>"en"\<close>.
\<close>

theorem detect_language_german_chars:
  "(detect_language text = ascii ''de'' \<longleftrightarrow> set text \<inter> german_chars \<noteq> {}) \<and>
   (detect_language text = ascii ''en'' \<longleftrightarrow> set text \<inter> german_chars = {}) \<and>
   german_chars = spec_german_chars \<union> {196, 214, 220} \<and>
   detect_language [71, 114, 246, 223, 101] = ascii ''de'' \<and>
   detect_language (ascii ''Size'') = ascii ''en''"
proof -
  have ne: "ascii ''de'' \<noteq> ascii ''en''" by (simp add: ascii_def)
  have ex: "list_ex (\<lambda>ch. ch \<in> german_chars) text \<longleftrightarrow> set text \<inter> german_chars \<noteq> {}"
    by (auto simp: list_ex_iff)
  have a: "detect_language text = ascii ''de'' \<longleftrightarrow> set text \<inter> german_chars \<noteq> {}"
    using ne ex by (simp add: detect_language_def)
  have b: "detect_language text = ascii ''en'' \<longleftrightarrow> set text \<inter> german_chars = {}"
    using ne ex by (simp add: detect_language_def)
  have c: "german_chars = spec_german_chars \<union> {196, 214, 220}"
    by (auto simp: german_chars_def spec_german_chars_def)
  have d: "detect_language [71, 114, 246, 223, 101] = ascii ''de''"
    by (simp add: detect_language_def german_chars_def)
  have e: "detect_language (ascii ''Size'') = ascii ''en''"
    by (simp add: detect_language_def german_chars_def ascii_def)
  show ?thesis using a b c d e by (intro conjI)
qed

section \<open>The heuristic classifier\<close>

text \<open>
  Claim C6 has the text cut into alphanumeric runs. The pattern of the source is
  \<open>\w+\<close>, and \<open>\w\<close> matches the underscore too: \<open>hello_world\<close> is one token, which
  no rule keeps, where the two alphanumeric runs \<open>hello\<close> and \<open>world\<close> would both be
  kept.
\<close>

theorem heuristic_counterexample:
  "extract_nouns_verbs_heuristic no_unicode (ascii ''hello_world'') = [] \<and>
   spec_heuristic no_unicode (ascii ''hello_world'') = [ascii ''hello'', ascii ''world'']"
  by code_simp

text \<open>
  Claim C6, amended. The tokens are the maximal runs of word characters, that is of
  alphanumeric characters and underscores. Of these the classifier returns, in order,
  exactly those the rules of the claim keep: not of length at most 1, not purely
  numeric, and with an upper-case first character, or else a lower-case form ending in
  \<open>en\<close>, \<open>st\<close>, \<open>t\<close> or \<open>end\<close>, or else purely alphabetic and longer than 3. On a text
  without underscore this is the classifier of the claim as it is worded. Of
  \<open>Apfel\<close>, \<open>rennen\<close>, \<open>big\<close> and \<open>wonderful\<close>, all but \<open>big\<close> are kept.
\<close>

theorem heuristic_classifier:
  "extract_nouns_verbs_heuristic U text = filter (spec_keeps U) (findall_words U text) \<and>
   (\<forall>t\<in>set (findall_words U text). t \<noteq> [] \<and> list_all (is_word_char U) t) \<and>
   (95 \<notin> set text \<longrightarrow> extract_nouns_verbs_heuristic U text = spec_heuristic U text) \<and>
   extract_nouns_verbs_heuristic U (ascii ''Apfel rennen big wonderful'')
     = [ascii ''Apfel'', ascii ''rennen'', ascii ''wonderful'']"
proof -
  have a: "extract_nouns_verbs_heuristic U text = filter (spec_keeps U) (findall_words U text)"
    by (simp add: extract_nouns_verbs_heuristic_def heuristic_loop_filter)
  have b: "\<forall>t\<in>set (findall_words U text). t \<noteq> [] \<and> list_all (is_word_char U) t"
    unfolding findall_words_def by (rule runs_wellformed) simp
  have c: "extract_nouns_verbs_heuristic U text = spec_heuristic U text" if "95 \<notin> set text"
  proof -
    have "\<forall>c\<in>set text. is_word_char U c = ch_isalnum U c"
      using that by (auto simp: is_word_char_def)
    then have "findall_words U text = spec_tokens U text"
      unfolding findall_words_def spec_tokens_def by (rule runs_agree)
    then show ?thesis using a by (simp add: spec_heuristic_def)
  qed
  have d: "extract_nouns_verbs_heuristic U (ascii ''Apfel rennen big wonderful'')
     = [ascii ''Apfel'', ascii ''rennen'', ascii ''wonderful'']"
    by (simp add: class_defs)
  show ?thesis using a b c d by blast
qed

theorem heuristic_classifier_witness:
  "95 \<notin> set (ascii ''Apfel rennen big wonderful'') \<and>
   spec_heuristic no_unicode (ascii ''Apfel rennen big wonderful'')
     = [ascii ''Apfel'', ascii ''rennen'', ascii ''wonderful'']"
proof -
  have u: "95 \<notin> set (ascii ''Apfel rennen big wonderful'')" by (simp add: ascii_def)
  from heuristic_classifier [of no_unicode "ascii ''Apfel rennen big wonderful''"] u
  show ?thesis by metis
qed

section \<open>Failures of \<open>extract_text\<close>\<close>

text \<open>
  Claim C8. \<open>extract_text\<close> raises exactly when the image cannot be opened and decoded
  or the OCR call fails, and what it raises is the \<open>RuntimeError\<close> that says the image
  could not be opened or processed. Whatever text the OCR returns is returned as it
  is, the empty and the all-white-space text included (\<open>strip\<close> gives the empty
  string exactly on those). The callers let the error through to their own caller,
  and treat a text that strips to nothing as a case of its own: \<open>main\<close> prints that
  no text was detected and exits with status 0, and \<open>generate\<close> answers with a JSON
  error of status 400.
\<close>

theorem extract_text_failures:
  "(isl (extract_text E fs p) \<longleftrightarrow>
      isl (image_open E fs p) \<or>
      (\<exists>img. image_open E fs p = Inr img \<and> isl (image_to_string E img))) \<and>
   (\<forall>e. extract_text E fs p = Inl e \<longrightarrow> (\<exists>exc. e = process_error p exc)) \<and>
   (\<forall>img t. image_open E fs p = Inr img \<and> image_to_string E img = Inr t \<longrightarrow>
       extract_text E fs p = Inr t) \<and>
   (\<forall>t. strip t = [] \<longleftrightarrow> list_all ch_isspace t) \<and>
   (\<forall>e. fs (args_image a) \<noteq> None \<and> extract_text E fs (args_image a) = Inl e \<longrightarrow>
       main E sh fs h g a = (Uncaught e, [], [], h, g)) \<and>
   (\<forall>t. fs (args_image a) \<noteq> None \<and> extract_text E fs (args_image a) = Inr t \<and> strip t = [] \<longrightarrow>
       main E sh fs h g a = (Exit 0, [ascii ''No text detected in the image.''], [], h, g)) \<and>
   (\<forall>e. filename file \<noteq> [] \<and>
        extract_text E (fs(temp_name E fs \<mapsto> content file)) (temp_name E fs) = Inl e \<longrightarrow>
       fst (generate E sh fs h g (Some file)) = Unhandled e) \<and>
   (\<forall>t. filename file \<noteq> [] \<and>
        extract_text E (fs(temp_name E fs \<mapsto> content file)) (temp_name E fs) = Inr t \<and>
        strip t = [] \<longrightarrow>
       fst (generate E sh fs h g (Some file)) =
         Json_error 400 (ascii ''Kein Text im Bild gefunden.''))"
proof -
  have a: "isl (extract_text E fs p) \<longleftrightarrow>
      isl (image_open E fs p) \<or>
      (\<exists>img. image_open E fs p = Inr img \<and> isl (image_to_string E img))"
    by (auto simp: extract_text_def split: sum.splits)
  have b: "\<forall>e. extract_text E fs p = Inl e \<longrightarrow> (\<exists>exc. e = process_error p exc)"
    using extract_text_cases [of E fs p] by blast
  have c: "\<forall>img t. image_open E fs p = Inr img \<and> image_to_string E img = Inr t \<longrightarrow>
       extract_text E fs p = Inr t"
    using extract_text_ok [of E fs p] by blast
  have d: "\<forall>t. strip t = [] \<longleftrightarrow> list_all ch_isspace t"
    by (simp add: strip_empty_iff)
  have e: "\<forall>e. fs (args_image a) \<noteq> None \<and> extract_text E fs (args_image a) = Inl e \<longrightarrow>
       main E sh fs h g a = (Uncaught e, [], [], h, g)"
    using main_uncaught [of fs a E _ sh h g] by blast
  have f: "\<forall>t. fs (args_image a) \<noteq> None \<and> extract_text E fs (args_image a) = Inr t \<and> strip t = [] \<longrightarrow>
       main E sh fs h g a = (Exit 0, [ascii ''No text detected in the image.''], [], h, g)"
    using main_no_text [of fs a E _ sh h g] by blast
  have g: "\<forall>e. filename file \<noteq> [] \<and>
        extract_text E (fs(temp_name E fs \<mapsto> content file)) (temp_name E fs) = Inl e \<longrightarrow>
       fst (generate E sh fs h g (Some file)) = Unhandled e"
    by (simp add: generate_failure)
  have h: "\<forall>t. filename file \<noteq> [] \<and>
        extract_text E (fs(temp_name E fs \<mapsto> content file)) (temp_name E fs) = Inr t \<and>
        strip t = [] \<longrightarrow>
       fst (generate E sh fs h g (Some file)) =
         Json_error 400 (ascii ''Kein Text im Bild gefunden.'')"
    by (simp add: generate_no_text)
  show ?thesis using a b c d e f g h by (intro conjI)
qed

theorem extract_text_failures_witness:
  "extract_text demo_env [ascii ''shot.png'' \<mapsto> not_an_image] (ascii ''shot.png'')
     = Inl (process_error (ascii ''shot.png'') (ascii ''cannot identify image file'')) \<and>
   main demo_env keep_order [ascii ''shot.png'' \<mapsto> not_an_image] [] 0
        \<lparr>args_image = ascii ''shot.png'', args_lang = None\<rparr>
     = (Uncaught (process_error (ascii ''shot.png'') (ascii ''cannot identify image file'')),
        [], [], [], 0) \<and>
   extract_text demo_env [ascii ''shot.png'' \<mapsto> blank_image] (ascii ''shot.png'') = Inr [32, 10] \<and>
   strip [32, 10] = [] \<and>
   main demo_env keep_order [ascii ''shot.png'' \<mapsto> blank_image] [] 0
        \<lparr>args_image = ascii ''shot.png'', args_lang = None\<rparr>
     = (Exit 0, [ascii ''No text detected in the image.''], [], [], 0) \<and>
   fst (generate demo_env keep_order Map.empty [] 0
          (Some \<lparr>filename = ascii ''shot.png'', content = blank_image\<rparr>))
     = Json_error 400 (ascii ''Kein Text im Bild gefunden.'')"
proof -
  let ?p = "ascii ''shot.png''"
  let ?a = "\<lparr>args_image = ?p, args_lang = None\<rparr>"
  let ?up = "\<lparr>filename = ?p, content = blank_image\<rparr>"
  have x1: "extract_text demo_env [?p \<mapsto> not_an_image] ?p
     = Inl (process_error ?p (ascii ''cannot identify image file''))"
    by (simp add: demo_defs ascii_def)
  have x2: "extract_text demo_env [?p \<mapsto> blank_image] ?p = Inr [32, 10]"
    by (simp add: demo_defs)
  have s: "strip [32, 10] = []" by (simp add: strip_def ch_isspace_def)
  have f1: "[?p \<mapsto> not_an_image] (args_image ?a) \<noteq> None" by simp
  have f2: "[?p \<mapsto> blank_image] (args_image ?a) \<noteq> None" by simp
  have fn: "filename ?up \<noteq> []" by (simp add: ascii_def)
  have x3: "extract_text demo_env (Map.empty(temp_name demo_env Map.empty \<mapsto> content ?up))
              (temp_name demo_env Map.empty) = Inr [32, 10]"
    by (simp add: demo_defs)
  have m1: "main demo_env keep_order [?p \<mapsto> not_an_image] [] 0 ?a
     = (Uncaught (process_error ?p (ascii ''cannot identify image file'')), [], [], [], 0)"
    using extract_text_failures [of demo_env "[?p \<mapsto> not_an_image]" ?p ?a keep_order "[]" 0 ?up]
      f1 x1 by simp
  have m2: "main demo_env keep_order [?p \<mapsto> blank_image] [] 0 ?a
     = (Exit 0, [ascii ''No text detected in the image.''], [], [], 0)"
    using extract_text_failures [of demo_env "[?p \<mapsto> blank_image]" ?p ?a keep_order "[]" 0 ?up]
      f2 x2 s by simp
  have g1: "fst (generate demo_env keep_order Map.empty [] 0 (Some ?up))
     = Json_error 400 (ascii ''Kein Text im Bild gefunden.'')"
    using extract_text_failures [of demo_env Map.empty ?p ?a keep_order "[]" 0 ?up]
      fn x3 s by blast
  show ?thesis using x1 m1 x2 s m2 g1 by (intro conjI)
qed

section \<open>The temporary file of \<open>generate\<close>\<close>

text \<open>
  Claim C9 asks that the temporary file be deleted on every way out of the handler.
  The source deletes it by a call of \<open>os.unlink\<close> placed after the \<open>with\<close> block, and
  the file is opened with \<open>delete=False\<close>. So when \<open>extract_text\<close> returns, with text
  or without, the file is gone from the file system the handler leaves; but when
  \<open>extract_text\<close> raises, the exception leaves the block, the call of \<open>os.unlink\<close>
  is never reached, and the file stays, holding the uploaded bytes. The second
  theorem runs the handler on an upload that is not an image.
\<close>

theorem generate_tempfile:
  "(\<forall>e. filename file \<noteq> [] \<and>
        extract_text E (fs(temp_name E fs \<mapsto> content file)) (temp_name E fs) = Inl e \<longrightarrow>
       generate E sh fs h g (Some file) =
         (Unhandled e, fs(temp_name E fs \<mapsto> content file), h, g)) \<and>
   (\<forall>t. filename file \<noteq> [] \<and>
        extract_text E (fs(temp_name E fs \<mapsto> content file)) (temp_name E fs) = Inr t \<longrightarrow>
       fst (snd (generate E sh fs h g (Some file))) = fs(temp_name E fs := None))"
  by (simp add: generate_failure generate_files_on_return)

theorem generate_tempfile_witness:
  "fst (generate demo_env keep_order Map.empty [] 0
          (Some \<lparr>filename = ascii ''notes.txt'', content = not_an_image\<rparr>))
     = Unhandled (process_error (ascii ''/tmp/tmpupload.png'') (ascii ''cannot identify image file'')) \<and>
   fst (snd (generate demo_env keep_order Map.empty [] 0
          (Some \<lparr>filename = ascii ''notes.txt'', content = not_an_image\<rparr>)))
       (ascii ''/tmp/tmpupload.png'')
     = Some not_an_image"
proof -
  let ?up = "\<lparr>filename = ascii ''notes.txt'', content = not_an_image\<rparr>"
  have fn: "filename ?up \<noteq> []" by (simp add: ascii_def)
  have t: "temp_name demo_env Map.empty = ascii ''/tmp/tmpupload.png''" by (simp add: demo_env_def)
  have x: "extract_text demo_env (Map.empty(temp_name demo_env Map.empty \<mapsto> content ?up))
              (temp_name demo_env Map.empty)
            = Inl (process_error (ascii ''/tmp/tmpupload.png'') (ascii ''cannot identify image file''))"
    by (simp add: demo_defs ascii_def)
  from generate_tempfile [of ?up demo_env Map.empty keep_order "[]" 0] fn x
  have "generate demo_env keep_order Map.empty [] 0 (Some ?up) =
         (Unhandled (process_error (ascii ''/tmp/tmpupload.png'') (ascii ''cannot identify image file'')),
          Map.empty(temp_name demo_env Map.empty \<mapsto> content ?up), [], 0)"
    by blast
  then show ?thesis using t by simp
qed

end
